theory Spec2Isabelle
  imports Complex_Main "HOL-Library.Word" "HOL-Library.Multiset"
begin

unbundle bit_operations_syntax

section \<open>Data model (pbf.go, dijkstra.go)\<close>

text \<open>
  Go's \<open>int32\<close> is a 32-bit word read as a signed number (\<open>sint\<close>); \<open>uint64\<close> is a
  64-bit word. \<open>float32\<close> and \<open>float64\<close> are idealised as real numbers: rounding, NaN and
  the infinities are outside the model, while the constant \<open>math.MaxFloat32\<close> keeps its
  exact value. A Go slice is a list; a nil slice and an empty slice are both \<open>[]\<close>.
\<close>

type_synonym int32 = "32 word"

datatype error = ErrHeapEmpty | ErrPathNotFound | Panic

record MetaData =
  Speed :: real
  Distance :: real
  RoadType :: string

record Node =
  ID :: int32
  Location :: "64 word"
  Rank :: int32

datatype EdgeDirection = Bidirectional | LeftToRight | RightToLeft

record Edge =
  ID :: int32
  Weight :: real
  Metadata :: MetaData

type_synonym Relations = "Edge list list"

record Graph =
  Nodes :: "Node list"
  IncomingEdges :: Relations
  OutgoingEdges :: Relations

text \<open>\<open>math.MaxFloat32 = 2^128 - 2^104\<close>.\<close>

definition INFINITE :: real where
  "INFINITE = 340282346638528859811704183484516925440"

text \<open>The zero values Go gives to omitted struct fields.\<close>

definition MetaData0 :: MetaData where
  "MetaData0 = \<lparr>Speed = 0, Distance = 0, RoadType = []\<rparr>"

definition Node0 :: Node where
  "Node0 = \<lparr>Node.ID = 0, Location = 0, Rank = 0\<rparr>"

definition EmptyGraph :: Graph where
  "EmptyGraph = \<lparr>Nodes = [], IncomingEdges = [], OutgoingEdges = []\<rparr>"

text \<open>
  A slice index expression \<open>xs[i]\<close> with an \<open>int32\<close> index panics unless
  \<open>0 \<le> i < len(xs)\<close>.
\<close>

definition in_range :: "int32 \<Rightarrow> 'a list \<Rightarrow> bool" where
  "in_range i xs = (0 \<le> sint i \<and> nat (sint i) < length xs)"

definition idx :: "int32 \<Rightarrow> nat" where
  "idx i = nat (sint i)"

text \<open>
  \<open>AddNode\<close>: \<open>id := len(g.Nodes); n.ID = int32(id)\<close>; the conversion to \<open>int32\<close>
  keeps the low 32 bits (\<open>word_of_nat\<close>). The model returns the updated graph and the id.
\<close>

definition AddNode :: "Graph \<Rightarrow> Node \<Rightarrow> Graph \<times> int32" where
  "AddNode g n =
     (let k = length (Nodes g);
          n' = n\<lparr>Node.ID := word_of_nat k\<rparr>
      in (g\<lparr>Nodes := Nodes g @ [n'],
             OutgoingEdges := OutgoingEdges g @ [[]],
             IncomingEdges := IncomingEdges g @ [[]]\<rparr>,
          word_of_nat k))"

definition addOutgoingEdge :: "Graph \<Rightarrow> int32 \<Rightarrow> int32 \<Rightarrow> real \<Rightarrow> MetaData \<Rightarrow> error + Graph" where
  "addOutgoingEdge g from to weight metaData =
     (if in_range from (OutgoingEdges g)
      then Inr (g\<lparr>OutgoingEdges := (OutgoingEdges g)
                  [idx from := OutgoingEdges g ! idx from @
                     [\<lparr>Edge.ID = to, Weight = weight, Metadata = metaData\<rparr>]]\<rparr>)
      else Inl Panic)"

definition addIncomingEdge :: "Graph \<Rightarrow> int32 \<Rightarrow> int32 \<Rightarrow> real \<Rightarrow> MetaData \<Rightarrow> error + Graph" where
  "addIncomingEdge g from to weight metaData =
     (if in_range to (IncomingEdges g)
      then Inr (g\<lparr>IncomingEdges := (IncomingEdges g)
                  [idx to := IncomingEdges g ! idx to @
                     [\<lparr>Edge.ID = from, Weight = weight, Metadata = metaData\<rparr>]]\<rparr>)
      else Inl Panic)"

text \<open>Sequencing of calls that may panic.\<close>

definition andThen :: "error + 'a \<Rightarrow> ('a \<Rightarrow> error + 'b) \<Rightarrow> error + 'b" where
  "andThen m f = (case m of Inl e \<Rightarrow> Inl e | Inr x \<Rightarrow> f x)"

definition RelateNodes ::
  "Graph \<Rightarrow> Node \<Rightarrow> Node \<Rightarrow> real \<Rightarrow> EdgeDirection \<Rightarrow> MetaData \<Rightarrow> error + Graph" where
  "RelateNodes g a b weight dir metaData =
     (case dir of
        Bidirectional \<Rightarrow>
          andThen (addOutgoingEdge g (Node.ID a) (Node.ID b) weight metaData) (\<lambda>g1.
          andThen (addIncomingEdge g1 (Node.ID b) (Node.ID a) weight metaData) (\<lambda>g2.
          andThen (addOutgoingEdge g2 (Node.ID b) (Node.ID a) weight metaData) (\<lambda>g3.
          addIncomingEdge g3 (Node.ID a) (Node.ID b) weight metaData)))
      | LeftToRight \<Rightarrow>
          andThen (addOutgoingEdge g (Node.ID a) (Node.ID b) weight metaData) (\<lambda>g1.
          addIncomingEdge g1 (Node.ID a) (Node.ID b) weight metaData)
      | RightToLeft \<Rightarrow>
          andThen (addOutgoingEdge g (Node.ID b) (Node.ID a) weight metaData) (\<lambda>g1.
          addIncomingEdge g1 (Node.ID b) (Node.ID a) weight metaData))"

text \<open>A sequence of \<open>AddNode\<close> calls, with the ids they return.\<close>

fun AddNodes :: "Graph \<Rightarrow> Node list \<Rightarrow> Graph \<times> int32 list" where
  "AddNodes g [] = (g, [])"
| "AddNodes g (n # ns) =
     (case AddNode g n of (g1, i) \<Rightarrow>
        (case AddNodes g1 ns of (g2, is) \<Rightarrow> (g2, i # is)))"

text \<open>
  The directed edges a graph records, as (source, target, weight, metadata): read from
  the outgoing lists (the list's index is the source) and from the incoming lists (the
  list's index is the target).
\<close>

fun outgoing_from :: "nat \<Rightarrow> Relations \<Rightarrow> (int \<times> int \<times> real \<times> MetaData) list" where
  "outgoing_from k [] = []"
| "outgoing_from k (es # ess) =
     map (\<lambda>e. (int k, sint (Edge.ID e), Weight e, Metadata e)) es @ outgoing_from (Suc k) ess"

fun incoming_from :: "nat \<Rightarrow> Relations \<Rightarrow> (int \<times> int \<times> real \<times> MetaData) list" where
  "incoming_from k [] = []"
| "incoming_from k (es # ess) =
     map (\<lambda>e. (sint (Edge.ID e), int k, Weight e, Metadata e)) es @ incoming_from (Suc k) ess"

definition mirror :: "Graph \<Rightarrow> bool" where
  "mirror g = (mset (outgoing_from 0 (OutgoingEdges g)) = mset (incoming_from 0 (IncomingEdges g)))"

type_synonym Costs = "int32 \<rightharpoonup> real"

definition GetCost :: "Costs \<Rightarrow> int32 \<Rightarrow> real \<times> error option" where
  "GetCost costs i =
     (case costs i of Some v \<Rightarrow> (v, None) | None \<Rightarrow> (INFINITE, Some ErrPathNotFound))"

text \<open>Auxiliary notions used to state and prove the graph properties.\<close>

fun stamp :: "nat \<Rightarrow> Node list \<Rightarrow> Node list" where
  "stamp k [] = []"
| "stamp k (n # ns) = n\<lparr>Node.ID := word_of_nat k\<rparr> # stamp (Suc k) ns"

definition out_edges :: "Graph \<Rightarrow> (int \<times> int \<times> real \<times> MetaData) multiset" where
  "out_edges g = mset (outgoing_from 0 (OutgoingEdges g))"

definition in_edges :: "Graph \<Rightarrow> (int \<times> int \<times> real \<times> MetaData) multiset" where
  "in_edges g = mset (incoming_from 0 (IncomingEdges g))"

section \<open>Priority queue (the heap of dijkstra.go)\<close>

record HNode =
  Value :: int32
  Cost :: real
  Depth :: int32
  Previous :: int32
  Dist :: real


text \<open>
  The field \<open>size\<close> of the Go struct is called \<open>heap_size\<close> here (\<open>size\<close> is a constant
  of HOL). Indices are natural numbers. Go computes \<open>parentIndex(i) = (i - 1) / 2\<close> on
  \<open>int\<close>, where \<open>/\<close> truncates toward zero, so \<open>parentIndex(0) = 0\<close>; on natural
  numbers \<open>(0 - 1) div 2 = 0\<close> as well, and both agree for every \<open>i \<ge> 0\<close>. Hence
  \<open>hasParent(i)\<close>, that is \<open>parentIndex(i) >= 0\<close>, is true for every \<open>i \<ge> 0\<close>, and the
  loop of \<open>heapifyUp\<close> stops at the root because the root is not cheaper than itself.
\<close>

record Heap =
  items :: "HNode list"
  heap_size :: nat


definition IsEmpty :: "Heap \<Rightarrow> bool" where
  "IsEmpty h = (heap_size h = 0)"

definition parentIndex :: "nat \<Rightarrow> nat" where
  "parentIndex i = (i - 1) div 2"



definition hasParent :: "nat \<Rightarrow> bool" where
  "hasParent i = (0 \<le> parentIndex i)"

function heapifyUp_loop :: "HNode list \<Rightarrow> nat \<Rightarrow> HNode list" where
  "heapifyUp_loop xs i =
     (if hasParent i \<and> Cost (xs ! parentIndex i) > Cost (xs ! i)
      then heapifyUp_loop (xs[i := xs ! parentIndex i, parentIndex i := xs ! i]) (parentIndex i)
      else xs)"
  by pat_completeness auto
termination
proof (relation "measure snd")
  show "wf (measure snd)" by simp
next
  fix xs :: "HNode list" and i :: nat
  assume "hasParent i \<and> Cost (xs ! i) < Cost (xs ! parentIndex i)"
  then have "parentIndex i \<noteq> i" by auto
  then have "parentIndex i < i" unfolding parentIndex_def by arith
  then show "((xs[i := xs ! parentIndex i, parentIndex i := xs ! i], parentIndex i), (xs, i)) \<in> measure snd"
    by simp
qed

declare heapifyUp_loop.simps [simp del]

text \<open>
  \<open>heapifyUp\<close> starts at \<open>i := h.size - 1\<close>. With \<open>size = 0\<close> Go has \<open>i = -1\<close> and
  \<open>parentIndex(-1) = -1\<close>, so the loop is not entered.
\<close>

definition heapifyUp :: "Heap \<Rightarrow> Heap" where
  "heapifyUp h =
     (if heap_size h = 0 then h
      else h\<lparr>items := heapifyUp_loop (items h) (heap_size h - 1)\<rparr>)"




definition Insert :: "Heap \<Rightarrow> HNode \<Rightarrow> Heap" where
  "Insert h n = heapifyUp (h\<lparr>items := items h @ [n], heap_size := heap_size h + 1\<rparr>)"







text \<open>Invariants of the heap, used to state and prove its properties.\<close>

definition is_heap :: "HNode list \<Rightarrow> bool" where
  "is_heap xs = (\<forall>i<length xs. Cost (xs ! parentIndex i) \<le> Cost (xs ! i))"

definition heap_inv :: "Heap \<Rightarrow> bool" where
  "heap_inv h = (heap_size h = length (items h) \<and> is_heap (items h))"



section \<open>Spatial index (kdtree.go)\<close>

text \<open>
  \<open>Vector.ID\<close> is a Go \<open>int\<close>. A \<open>*node\<close> is either nil (\<open>NilNode\<close>) or points to a
  node with a vector and two children.
\<close>

record Vector =
  ID :: int
  Components :: "real list"






















section \<open>Graph construction: properties\<close>

lemma AddNode_Nodes: "Nodes (fst (AddNode g n)) = Nodes g @ [n\<lparr>Node.ID := word_of_nat (length (Nodes g))\<rparr>]"
  by (simp add: AddNode_def Let_def)
lemma AddNode_Out: "OutgoingEdges (fst (AddNode g n)) = OutgoingEdges g @ [[]]"
  by (simp add: AddNode_def Let_def)
lemma AddNode_In: "IncomingEdges (fst (AddNode g n)) = IncomingEdges g @ [[]]"
  by (simp add: AddNode_def Let_def)
lemma AddNode_snd: "snd (AddNode g n) = word_of_nat (length (Nodes g))"
  by (simp add: AddNode_def Let_def)

lemma stamp_length: "length (stamp k ns) = length ns"
  by (induction ns arbitrary: k) auto

lemma stamp_nth: "j < length ns \<Longrightarrow> stamp k ns ! j = (ns ! j)\<lparr>Node.ID := word_of_nat (k + j)\<rparr>"
  by (induction ns arbitrary: k j) (auto simp: nth_Cons split: nat.splits)

lemma AddNodes_Nodes: "AddNodes g ns = (g', ids) \<Longrightarrow> Nodes g' = Nodes g @ stamp (length (Nodes g)) ns"
proof (induction ns arbitrary: g g' ids)
  case Nil
  then show ?case by simp
next
  case (Cons n ns)
  obtain g1 i where a: "AddNode g n = (g1, i)" by (cases "AddNode g n")
  obtain g2 js where b: "AddNodes g1 ns = (g2, js)" by (cases "AddNodes g1 ns")
  have n1: "Nodes g1 = Nodes g @ [n\<lparr>Node.ID := word_of_nat (length (Nodes g))\<rparr>]"
    using AddNode_Nodes[of g n] a by simp
  have "g' = g2" using Cons.prems a b by simp
  then show ?case using Cons.IH[OF b] n1 by simp
qed

lemma AddNodes_ids:
  "AddNodes g ns = (g', ids) \<Longrightarrow> ids = map word_of_nat [length (Nodes g)..<length (Nodes g) + length ns]"
proof (induction ns arbitrary: g g' ids)
  case Nil
  then show ?case by simp
next
  case (Cons n ns)
  obtain g1 i where a: "AddNode g n = (g1, i)" by (cases "AddNode g n")
  obtain g2 js where b: "AddNodes g1 ns = (g2, js)" by (cases "AddNodes g1 ns")
  have n1: "length (Nodes g1) = Suc (length (Nodes g))" and i: "i = word_of_nat (length (Nodes g))"
    using AddNode_Nodes[of g n] AddNode_snd[of g n] a by simp_all
  have u: "[length (Nodes g)..<length (Nodes g) + length (n # ns)] = length (Nodes g) # [Suc (length (Nodes g))..<Suc (length (Nodes g)) + length ns]"
    by (subst upt_rec) simp
  have "ids = i # js" using Cons.prems a b by simp
  then show ?case using Cons.IH[OF b] n1 i unfolding u by simp
qed

lemma AddNodes_Out: "AddNodes g ns = (g', ids) \<Longrightarrow> OutgoingEdges g' = OutgoingEdges g @ replicate (length ns) []"
proof (induction ns arbitrary: g g' ids)
  case (Cons n ns)
  obtain g1 i where a: "AddNode g n = (g1, i)" by (cases "AddNode g n")
  obtain g2 js where b: "AddNodes g1 ns = (g2, js)" by (cases "AddNodes g1 ns")
  have n1: "OutgoingEdges g1 = OutgoingEdges g @ [[]]"
    using AddNode_Out[of g n] a by simp
  have "g' = g2" using Cons.prems a b by simp
  then show ?case using Cons.IH[OF b] n1 by simp
qed simp

lemma AddNodes_In: "AddNodes g ns = (g', ids) \<Longrightarrow> IncomingEdges g' = IncomingEdges g @ replicate (length ns) []"
proof (induction ns arbitrary: g g' ids)
  case (Cons n ns)
  obtain g1 i where a: "AddNode g n = (g1, i)" by (cases "AddNode g n")
  obtain g2 js where b: "AddNodes g1 ns = (g2, js)" by (cases "AddNodes g1 ns")
  have n1: "IncomingEdges g1 = IncomingEdges g @ [[]]"
    using AddNode_In[of g n] a by simp
  have "g' = g2" using Cons.prems a b by simp
  then show ?case using Cons.IH[OF b] n1 by simp
qed simp

lemma sint_word_of_nat_32: "n < 2^31 \<Longrightarrow> sint (word_of_nat n :: int32) = int n"
proof -
  assume a: "n < 2^31"
  have "sint (word_of_int (int n) :: int32) = int n"
    unfolding sint_sbintrunc' using a by (simp add: signed_take_bit_int_eq_self)
  then show ?thesis by simp
qed

lemma word_of_nat_idx: "0 \<le> sint (w::int32) \<Longrightarrow> word_of_nat (idx w) = w"
proof -
  assume a: "0 \<le> sint w"
  have "(word_of_nat (nat (sint w)) :: int32) = word_of_int (sint w)"
    using a by (simp add: word_of_int_nat)
  also have "\<dots> = w" by simp
  finally show ?thesis by (simp add: idx_def)
qed

lemma idx_lt: "idx (w::int32) < 2^31"
  using sint_lt[of w] by (simp add: idx_def)

lemma idx_word_of_nat: "n < 2^31 \<Longrightarrow> idx (word_of_nat n :: int32) = n"
  by (simp add: idx_def sint_word_of_nat_32)

lemma outgoing_from_update:
  "i < length ess \<Longrightarrow>
   mset (outgoing_from k (ess[i := ess ! i @ [e]])) =
   add_mset (int (k + i), sint (Edge.ID e), Weight e, Metadata e) (mset (outgoing_from k ess))"
proof (induction ess arbitrary: k i)
  case Nil
  then show ?case by simp
next
  case (Cons es ess)
  show ?case
  proof (cases i)
    case 0
    then show ?thesis by simp
  next
    case (Suc j)
    then have "j < length ess" using Cons.prems by simp
    from Cons.IH[OF this, of "Suc k"] Suc show ?thesis by simp
  qed
qed

lemma incoming_from_update:
  "i < length ess \<Longrightarrow>
   mset (incoming_from k (ess[i := ess ! i @ [e]])) =
   add_mset (sint (Edge.ID e), int (k + i), Weight e, Metadata e) (mset (incoming_from k ess))"
proof (induction ess arbitrary: k i)
  case Nil
  then show ?case by simp
next
  case (Cons es ess)
  show ?case
  proof (cases i)
    case 0
    then show ?thesis by simp
  next
    case (Suc j)
    then have "j < length ess" using Cons.prems by simp
    from Cons.IH[OF this, of "Suc k"] Suc show ?thesis by simp
  qed
qed

lemma int_idx: "in_range i xs \<Longrightarrow> int (idx i) = sint i"
  by (simp add: in_range_def idx_def)

lemma in_range_idx: "in_range i xs \<Longrightarrow> idx i < length xs"
  by (simp add: in_range_def idx_def)

lemma addOutgoingEdge_Inr:
  "addOutgoingEdge g f t w m = Inr g' \<longleftrightarrow>
   in_range f (OutgoingEdges g) \<and>
   g' = g\<lparr>OutgoingEdges := (OutgoingEdges g)[idx f := OutgoingEdges g ! idx f @
          [\<lparr>Edge.ID = t, Weight = w, Metadata = m\<rparr>]]\<rparr>"
  by (auto simp: addOutgoingEdge_def)

lemma addIncomingEdge_Inr:
  "addIncomingEdge g f t w m = Inr g' \<longleftrightarrow>
   in_range t (IncomingEdges g) \<and>
   g' = g\<lparr>IncomingEdges := (IncomingEdges g)[idx t := IncomingEdges g ! idx t @
          [\<lparr>Edge.ID = f, Weight = w, Metadata = m\<rparr>]]\<rparr>"
  by (auto simp: addIncomingEdge_def)

lemma andThen_Inr: "andThen m f = Inr y \<longleftrightarrow> (\<exists>x. m = Inr x \<and> f x = Inr y)"
  by (cases m) (auto simp: andThen_def)

lemma addOutgoingEdge_edges:
  assumes "addOutgoingEdge g f t w m = Inr g'"
  shows "out_edges g' = add_mset (sint f, sint t, w, m) (out_edges g)"
    and "in_edges g' = in_edges g"
  using assms outgoing_from_update[of "idx f" "OutgoingEdges g" 0 "\<lparr>Edge.ID = t, Weight = w, Metadata = m\<rparr>"]
  by (auto simp: addOutgoingEdge_Inr out_edges_def in_edges_def int_idx in_range_idx)

lemma addIncomingEdge_edges:
  assumes "addIncomingEdge g f t w m = Inr g'"
  shows "in_edges g' = add_mset (sint f, sint t, w, m) (in_edges g)"
    and "out_edges g' = out_edges g"
  using assms incoming_from_update[of "idx t" "IncomingEdges g" 0 "\<lparr>Edge.ID = f, Weight = w, Metadata = m\<rparr>"]
  by (auto simp: addIncomingEdge_Inr out_edges_def in_edges_def int_idx in_range_idx)

lemma RelateNodes_edges:
  assumes "RelateNodes g a b w dir m = Inr g'"
  shows "out_edges g' - out_edges g = in_edges g' - in_edges g
       \<and> out_edges g \<subseteq># out_edges g' \<and> in_edges g \<subseteq># in_edges g'"
proof (cases dir)
  case Bidirectional
  then obtain g1 g2 g3 where
    s: "addOutgoingEdge g (Node.ID a) (Node.ID b) w m = Inr g1"
       "addIncomingEdge g1 (Node.ID b) (Node.ID a) w m = Inr g2"
       "addOutgoingEdge g2 (Node.ID b) (Node.ID a) w m = Inr g3"
       "addIncomingEdge g3 (Node.ID a) (Node.ID b) w m = Inr g'"
    using assms by (auto simp: RelateNodes_def andThen_Inr)
  show ?thesis
    using addOutgoingEdge_edges[OF s(1)] addIncomingEdge_edges[OF s(2)]
      addOutgoingEdge_edges[OF s(3)] addIncomingEdge_edges[OF s(4)]
    by (simp add: add_mset_commute)
next
  case LeftToRight
  then obtain g1 where
    s: "addOutgoingEdge g (Node.ID a) (Node.ID b) w m = Inr g1"
       "addIncomingEdge g1 (Node.ID a) (Node.ID b) w m = Inr g'"
    using assms by (auto simp: RelateNodes_def andThen_Inr)
  show ?thesis
    using addOutgoingEdge_edges[OF s(1)] addIncomingEdge_edges[OF s(2)] by simp
next
  case RightToLeft
  then obtain g1 where
    s: "addOutgoingEdge g (Node.ID b) (Node.ID a) w m = Inr g1"
       "addIncomingEdge g1 (Node.ID b) (Node.ID a) w m = Inr g'"
    using assms by (auto simp: RelateNodes_def andThen_Inr)
  show ?thesis
    using addOutgoingEdge_edges[OF s(1)] addIncomingEdge_edges[OF s(2)] by simp
qed

lemma RelateNodes_mirror_step:
  assumes "mirror g" "RelateNodes g a b w dir m = Inr g'"
  shows "mirror g'"
proof -
  from RelateNodes_edges[OF assms(2)]
  have d: "out_edges g' - out_edges g = in_edges g' - in_edges g"
    and o: "out_edges g \<subseteq># out_edges g'" and i: "in_edges g \<subseteq># in_edges g'" by auto
  have e: "out_edges g = in_edges g" using assms(1) by (simp add: mirror_def out_edges_def in_edges_def)
  have "out_edges g' = (out_edges g' - out_edges g) + out_edges g" using o by simp
  also have "\<dots> = (in_edges g' - in_edges g) + in_edges g" using d e by simp
  also have "\<dots> = in_edges g'" using i by simp
  finally show ?thesis by (simp add: mirror_def out_edges_def in_edges_def)
qed

lemma RelateNodes_Bidirectional_ok:
  assumes a: "in_range (Node.ID a) (OutgoingEdges g)" and b: "in_range (Node.ID b) (OutgoingEdges g)"
    and l: "length (IncomingEdges g) = length (OutgoingEdges g)"
  shows "\<exists>g'. RelateNodes g a b w Bidirectional m = Inr g'
     \<and> \<lparr>Edge.ID = Node.ID b, Weight = w, Metadata = m\<rparr> \<in> set (OutgoingEdges g' ! idx (Node.ID a))
     \<and> \<lparr>Edge.ID = Node.ID a, Weight = w, Metadata = m\<rparr> \<in> set (IncomingEdges g' ! idx (Node.ID b))
     \<and> \<lparr>Edge.ID = Node.ID a, Weight = w, Metadata = m\<rparr> \<in> set (OutgoingEdges g' ! idx (Node.ID b))
     \<and> \<lparr>Edge.ID = Node.ID b, Weight = w, Metadata = m\<rparr> \<in> set (IncomingEdges g' ! idx (Node.ID a))"
proof -
  have a': "in_range (Node.ID a) (IncomingEdges g)" and b': "in_range (Node.ID b) (IncomingEdges g)"
    using a b l by (simp_all add: in_range_def)
  have la: "idx (Node.ID a) < length (OutgoingEdges g)" and lb: "idx (Node.ID b) < length (OutgoingEdges g)"
    using a b by (simp_all add: in_range_idx)
  show ?thesis
    using a b a' b' la lb l
    by (simp add: RelateNodes_def andThen_def addOutgoingEdge_def addIncomingEdge_def in_range_def
        nth_list_update)
qed

text \<open>
  C9 (as amended). A graph made by at most \<open>2^31\<close> calls of \<open>AddNode\<close> on the empty
  graph stores at every index \<open>i\<close> a node whose ID is \<open>i\<close>: each call overwrites the ID
  its argument carries with the next sequential id, starting at 0, returns that id, and
  leaves the other fields of the node alone; \<open>Nodes\<close>, \<open>OutgoingEdges\<close> and
  \<open>IncomingEdges\<close> have the same length.
\<close>

theorem AddNode_sequential_ids:
  assumes "length ns \<le> 2^31" and "AddNodes EmptyGraph ns = (g, ids)"
  shows "length (Nodes g) = length ns \<and> length (OutgoingEdges g) = length ns
       \<and> length (IncomingEdges g) = length ns \<and> length ids = length ns
       \<and> (\<forall>i<length ns. sint (Node.ID (Nodes g ! i)) = int i \<and> sint (ids ! i) = int i
            \<and> Location (Nodes g ! i) = Location (ns ! i) \<and> Rank (Nodes g ! i) = Rank (ns ! i))"
proof -
  have n: "Nodes g = stamp 0 ns"
    using AddNodes_Nodes[OF assms(2)] by (simp add: EmptyGraph_def)
  have i: "ids = map word_of_nat [0..<length ns]"
    using AddNodes_ids[OF assms(2)] by (simp add: EmptyGraph_def)
  have o: "OutgoingEdges g = replicate (length ns) []"
    using AddNodes_Out[OF assms(2)] by (simp add: EmptyGraph_def)
  have e: "IncomingEdges g = replicate (length ns) []"
    using AddNodes_In[OF assms(2)] by (simp add: EmptyGraph_def)
  have s: "sint (word_of_nat j :: int32) = int j" if "j < length ns" for j
    using that assms(1) by (intro sint_word_of_nat_32) simp
  show ?thesis
    using n i o e s by (simp add: stamp_length stamp_nth)
qed

theorem AddNode_sequential_ids_witness:
  "length [\<lparr>Node.ID = 7, Location = 5, Rank = 3\<rparr>, Node0] \<le> 2^31
   \<and> AddNodes EmptyGraph [\<lparr>Node.ID = 7, Location = 5, Rank = 3\<rparr>, Node0]
       = (\<lparr>Nodes = [\<lparr>Node.ID = 0, Location = 5, Rank = 3\<rparr>, \<lparr>Node.ID = 1, Location = 0, Rank = 0\<rparr>],
           IncomingEdges = [[], []], OutgoingEdges = [[], []]\<rparr>, [0, 1])
   \<and> sint (Node.ID ([\<lparr>Node.ID = 0, Location = 5, Rank = 3\<rparr>,
                        \<lparr>Node.ID = 1, Location = 0, Rank = 0\<rparr>] ! 1)) = 1"
proof -
  have a: "AddNodes EmptyGraph [\<lparr>Node.ID = 7, Location = 5, Rank = 3\<rparr>, Node0]
       = (\<lparr>Nodes = [\<lparr>Node.ID = 0, Location = 5, Rank = 3\<rparr>, \<lparr>Node.ID = 1, Location = 0, Rank = 0\<rparr>],
           IncomingEdges = [[], []], OutgoingEdges = [[], []]\<rparr>, [0, 1])"
    by (simp add: AddNode_def EmptyGraph_def Node0_def)
  have l: "length [\<lparr>Node.ID = 7, Location = 5, Rank = 3\<rparr>, Node0] \<le> 2^31" by simp
  from AddNode_sequential_ids[OF l a] a l show ?thesis by simp
qed

text \<open>
  C9 as stated fails once the index no longer fits an \<open>int32\<close>: after \<open>2^31 + 1\<close> calls
  of \<open>AddNode\<close> the node at index \<open>2^31\<close> has ID \<open>-2^31\<close>.
\<close>

theorem AddNode_id_wraps_counterexample:
  "sint (Node.ID (Nodes (fst (AddNodes EmptyGraph (replicate (2^31 + 1) Node0))) ! (2^31))) = - (2^31)"
proof -
  obtain g ids where a: "AddNodes EmptyGraph (replicate (2^31 + 1) Node0) = (g, ids)"
    by (cases "AddNodes EmptyGraph (replicate (2^31 + 1) Node0)")
  have "Nodes g = stamp 0 (replicate (2^31 + 1) Node0)"
    using AddNodes_Nodes[OF a] by (simp add: EmptyGraph_def)
  then have "Node.ID (Nodes g ! (2^31)) = (word_of_nat (2^31) :: int32)"
    by (simp add: stamp_nth)
  then show ?thesis using a by simp
qed

text \<open>
  C5. In a graph whose adjacency lists are index-aligned and that holds the nodes \<open>a\<close> and
  \<open>b\<close> (their ids are indices of the lists), \<open>RelateNodes\<close> with \<open>Bidirectional\<close> returns
  a graph in which \<open>OutgoingEdges[a.ID]\<close> holds an edge to \<open>b.ID\<close> with the given weight,
  \<open>IncomingEdges[b.ID]\<close> an edge from \<open>a.ID\<close>, and the same with \<open>a\<close> and \<open>b\<close> exchanged.
  Every successful \<open>RelateNodes\<close>, in any direction, preserves the mirror invariant: the
  edges recorded in the outgoing lists and those recorded in the incoming lists are the
  same multiset of (source, target, weight, metadata).
\<close>

theorem RelateNodes_consistent:
  "(in_range (Node.ID a) (OutgoingEdges g) \<and> in_range (Node.ID b) (OutgoingEdges g)
      \<and> length (IncomingEdges g) = length (OutgoingEdges g)
    \<longrightarrow> (\<exists>g'. RelateNodes g a b w Bidirectional m = Inr g'
     \<and> \<lparr>Edge.ID = Node.ID b, Weight = w, Metadata = m\<rparr> \<in> set (OutgoingEdges g' ! idx (Node.ID a))
     \<and> \<lparr>Edge.ID = Node.ID a, Weight = w, Metadata = m\<rparr> \<in> set (IncomingEdges g' ! idx (Node.ID b))
     \<and> \<lparr>Edge.ID = Node.ID a, Weight = w, Metadata = m\<rparr> \<in> set (OutgoingEdges g' ! idx (Node.ID b))
     \<and> \<lparr>Edge.ID = Node.ID b, Weight = w, Metadata = m\<rparr> \<in> set (IncomingEdges g' ! idx (Node.ID a))))
   \<and> (\<forall>dir g'. mirror g \<and> RelateNodes g a b w dir m = Inr g' \<longrightarrow> mirror g')"
  using RelateNodes_Bidirectional_ok[of a g b w m] RelateNodes_mirror_step[of g a b w _ m]
  by blast

theorem RelateNodes_consistent_witness:
  "in_range (1::int32) [[], []] \<and> in_range (0::int32) [[], []]
   \<and> mirror \<lparr>Nodes = [Node0, Node0\<lparr>Node.ID := 1\<rparr>], IncomingEdges = [[], []], OutgoingEdges = [[], []]\<rparr>
   \<and> RelateNodes \<lparr>Nodes = [Node0, Node0\<lparr>Node.ID := 1\<rparr>], IncomingEdges = [[], []], OutgoingEdges = [[], []]\<rparr>
        Node0 (Node0\<lparr>Node.ID := 1\<rparr>) 2 Bidirectional MetaData0
      = Inr \<lparr>Nodes = [Node0, Node0\<lparr>Node.ID := 1\<rparr>],
             IncomingEdges = [[\<lparr>Edge.ID = 1, Weight = 2, Metadata = MetaData0\<rparr>],
                              [\<lparr>Edge.ID = 0, Weight = 2, Metadata = MetaData0\<rparr>]],
             OutgoingEdges = [[\<lparr>Edge.ID = 1, Weight = 2, Metadata = MetaData0\<rparr>],
                              [\<lparr>Edge.ID = 0, Weight = 2, Metadata = MetaData0\<rparr>]]\<rparr>
   \<and> mirror \<lparr>Nodes = [Node0, Node0\<lparr>Node.ID := 1\<rparr>],
             IncomingEdges = [[\<lparr>Edge.ID = 1, Weight = 2, Metadata = MetaData0\<rparr>],
                              [\<lparr>Edge.ID = 0, Weight = 2, Metadata = MetaData0\<rparr>]],
             OutgoingEdges = [[\<lparr>Edge.ID = 1, Weight = 2, Metadata = MetaData0\<rparr>],
                              [\<lparr>Edge.ID = 0, Weight = 2, Metadata = MetaData0\<rparr>]]\<rparr>"
proof -
  let ?g = "\<lparr>Nodes = [Node0, Node0\<lparr>Node.ID := 1\<rparr>], IncomingEdges = [[], []], OutgoingEdges = [[], []]\<rparr>"
  have r: "in_range (1::int32) [[], []]" "in_range (0::int32) [[], []]"
    by (simp_all add: in_range_def)
  have m: "mirror ?g" by (simp add: mirror_def)
  have e: "RelateNodes ?g Node0 (Node0\<lparr>Node.ID := 1\<rparr>) 2 Bidirectional MetaData0
      = Inr \<lparr>Nodes = [Node0, Node0\<lparr>Node.ID := 1\<rparr>],
             IncomingEdges = [[\<lparr>Edge.ID = 1, Weight = 2, Metadata = MetaData0\<rparr>],
                              [\<lparr>Edge.ID = 0, Weight = 2, Metadata = MetaData0\<rparr>]],
             OutgoingEdges = [[\<lparr>Edge.ID = 1, Weight = 2, Metadata = MetaData0\<rparr>],
                              [\<lparr>Edge.ID = 0, Weight = 2, Metadata = MetaData0\<rparr>]]\<rparr>"
    by (simp add: RelateNodes_def andThen_def addOutgoingEdge_def addIncomingEdge_def
        in_range_def idx_def Node0_def)
  from RelateNodes_consistent[of Node0 ?g "Node0\<lparr>Node.ID := 1\<rparr>" 2 MetaData0] m e
  have "mirror \<lparr>Nodes = [Node0, Node0\<lparr>Node.ID := 1\<rparr>],
             IncomingEdges = [[\<lparr>Edge.ID = 1, Weight = 2, Metadata = MetaData0\<rparr>],
                              [\<lparr>Edge.ID = 0, Weight = 2, Metadata = MetaData0\<rparr>]],
             OutgoingEdges = [[\<lparr>Edge.ID = 1, Weight = 2, Metadata = MetaData0\<rparr>],
                              [\<lparr>Edge.ID = 0, Weight = 2, Metadata = MetaData0\<rparr>]]\<rparr>"
    by blast
  with r m e show ?thesis by blast
qed

section \<open>Priority queue: properties\<close>

lemma hasParent_True [simp]: "hasParent i" by (simp add: hasParent_def)
lemma parent_le: "parentIndex i \<le> i" unfolding parentIndex_def by arith
lemma parent_less: "0 < i \<Longrightarrow> parentIndex i < i" unfolding parentIndex_def by arith


lemma heapifyUp_loop_mset: "i < length xs \<Longrightarrow> mset (heapifyUp_loop xs i) = mset xs"
proof (induction xs i rule: heapifyUp_loop.induct)
  case (1 xs i)
  show ?case
  proof (cases "hasParent i \<and> Cost (xs ! parentIndex i) > Cost (xs ! i)")
    case True
    have p: "parentIndex i < length xs" using parent_le[of i] "1.prems" by simp
    have "mset (xs[i := xs ! parentIndex i, parentIndex i := xs ! i]) = mset xs"
      using mset_swap[OF p "1.prems"] by simp
    then show ?thesis using "1.IH"[OF True] p True heapifyUp_loop.simps[of xs i] by simp
  next
    case False
    then show ?thesis using heapifyUp_loop.simps[of xs i] by simp
  qed
qed





lemma Insert_mset: "heap_inv h \<Longrightarrow> mset (items (Insert h n)) = add_mset n (mset (items h))"
  by (simp add: heap_inv_def Insert_def heapifyUp_def heapifyUp_loop_mset)

















lemma heapifyUp_loop_root:
  "0 < i \<Longrightarrow> i < length xs \<Longrightarrow> Cost (xs ! 0) \<le> Cost (xs ! i) \<Longrightarrow> heapifyUp_loop xs i ! 0 = xs ! 0"
proof (induction xs i rule: heapifyUp_loop.induct)
  case (1 xs i)
  show ?case
  proof (cases "hasParent i \<and> Cost (xs ! parentIndex i) > Cost (xs ! i)")
    case False
    then show ?thesis using heapifyUp_loop.simps[of xs i] by simp
  next
    case True
    let ?p = "parentIndex i"
    let ?ys = "xs[i := xs ! ?p, ?p := xs ! i]"
    have p0: "0 < ?p" using True "1.prems"(3) by (cases "?p = 0") auto
    have pi: "?p < i" using parent_less[OF "1.prems"(1)] .
    have y0: "?ys ! 0 = xs ! 0" using p0 "1.prems"(1) by simp
    have yp: "?ys ! ?p = xs ! i" using pi "1.prems"(2) by simp
    have "heapifyUp_loop ?ys ?p ! 0 = ?ys ! 0"
      using "1.IH"[OF True p0] pi "1.prems" y0 yp by simp
    then show ?thesis using True y0 heapifyUp_loop.simps[of xs i] by simp
  qed
qed

lemma Insert_root:
  assumes "heap_inv h" "\<not> IsEmpty h" "Cost (items h ! 0) \<le> Cost n"
  shows "items (Insert h n) ! 0 = items h ! 0"
proof -
  have s: "heap_size h = length (items h)" "0 < length (items h)"
    using assms by (auto simp: heap_inv_def IsEmpty_def)
  have "heapifyUp_loop (items h @ [n]) (length (items h)) ! 0 = (items h @ [n]) ! 0"
    using s assms(3) by (intro heapifyUp_loop_root) (simp_all add: nth_append)
  then show ?thesis using s by (simp add: Insert_def heapifyUp_def nth_append)
qed

lemma Insert_not_empty: "\<not> IsEmpty (Insert h n)"
  by (simp add: Insert_def heapifyUp_def IsEmpty_def)


section \<open>Spatial index: properties\<close>

























end
